theory Spec2Isabelle
  imports Main "HOL-Library.AList" "HOL-Library.FSet" "HOL-Library.Sublist"
    "HOL-Library.List_Lexorder"
begin

section \<open>Python strings\<close>

text \<open>
  A Python \<open>str\<close> is a sequence of Unicode code points; it is modelled as a list of
  natural numbers, one per code point.  Comparison of two strings (\<open><\<close>, \<open>sorted\<close>) is
  lexicographic on the code points, which is the order of \<open>HOL-Library.List_Lexorder\<close>.
  \<open>str\<close> turns a literal of the theory into such a list.
\<close>

type_synonym pystr = "nat list"

definition str :: "string \<Rightarrow> pystr" where
  "str s = map of_char s"

text \<open>
  The code points for which \<open>str.isspace\<close> holds: they are what \<open>\s\<close> matches in a
  \<open>str\<close> pattern and what \<open>str.strip()\<close> removes.
\<close>

definition is_space :: "nat \<Rightarrow> bool" where
  "is_space c = ((9 \<le> c \<and> c \<le> 13) \<or> (28 \<le> c \<and> c \<le> 32) \<or> c = 133 \<or> c = 160
     \<or> c = 5760 \<or> (8192 \<le> c \<and> c \<le> 8202) \<or> c = 8232 \<or> c = 8233 \<or> c = 8239
     \<or> c = 8287 \<or> c = 12288)"

text \<open>
  A literal character \<open>p\<close> of a pattern compiled with \<open>re.IGNORECASE\<close>, against the
  character \<open>x\<close> of the text.  The patterns of this program hold ASCII characters only:
  a letter matches both of its cases, \<open>K\<close> also the Kelvin sign (8490), \<open>I\<close> also
  the dotted capital and the dotless small i (304, 305), \<open>S\<close> also the long s (383);
  any other character matches itself.
\<close>

definition ci_eq :: "nat \<Rightarrow> nat \<Rightarrow> bool" where
  "ci_eq p x = (x = p \<or> (65 \<le> p \<and> p \<le> 90 \<and> x = p + 32) \<or> (97 \<le> p \<and> p \<le> 122 \<and> x + 32 = p)
     \<or> ((p = 75 \<or> p = 107) \<and> x = 8490)
     \<or> ((p = 73 \<or> p = 105) \<and> (x = 304 \<or> x = 305))
     \<or> ((p = 83 \<or> p = 115) \<and> x = 383))"

text \<open>\<open>s.strip()\<close> and \<open>s.strip(chars)\<close>: remove the characters from both ends.\<close>

definition strip_where :: "(nat \<Rightarrow> bool) \<Rightarrow> pystr \<Rightarrow> pystr" where
  "strip_where P s = rev (dropWhile P (rev (dropWhile P s)))"

definition strip :: "pystr \<Rightarrow> pystr" where
  "strip s = strip_where is_space s"

definition strip_quote :: "pystr \<Rightarrow> pystr" where
  "strip_quote s = strip_where (\<lambda>c. c = 34) s"

text \<open>\<open>s.split(sep)\<close> for a separator of one character: never an empty list.\<close>

fun split :: "nat \<Rightarrow> pystr \<Rightarrow> pystr list" where
  "split sep [] = [[]]"
| "split sep (c # cs) =
     (if c = sep then [] # split sep cs
      else (case split sep cs of [] \<Rightarrow> [[c]] | w # ws \<Rightarrow> (c # w) # ws))"

text \<open>\<open>sep.join(xs)\<close>.\<close>

fun join :: "pystr \<Rightarrow> pystr list \<Rightarrow> pystr" where
  "join sep [] = []"
| "join sep [x] = x"
| "join sep (x # y # ys) = x @ sep @ join sep (y # ys)"

section \<open>Regular expressions\<close>

text \<open>
  The four patterns of the program are sequences of single characters, repetitions of a
  character class and groups.  A pattern is a list of items, matched by backtracking in
  the order of Python's \<open>re\<close>: a greedy repetition tries the longest run first, a lazy
  one the shortest, and the first way to match the whole pattern is the match.
\<close>

datatype cls =
    Lit nat         \<comment> \<open>a literal character, under \<open>re.IGNORECASE\<close>\<close>
  | Space           \<comment> \<open>\<open>\s\<close>\<close>
  | Except nat      \<comment> \<open>\<open>[^c]\<close>\<close>
  | AnyChar         \<comment> \<open>\<open>[\s\S]\<close>\<close>

fun in_cls :: "cls \<Rightarrow> nat \<Rightarrow> bool" where
  "in_cls (Lit p) x = ci_eq p x"
| "in_cls Space x = is_space x"
| "in_cls (Except p) x = (x \<noteq> p)"
| "in_cls AnyChar x = True"

datatype item =
    One cls         \<comment> \<open>one character of the class\<close>
  | Star cls        \<comment> \<open>\<open>c*\<close>, greedy\<close>
  | Lazy cls        \<comment> \<open>\<open>c*?\<close>, lazy\<close>
  | Open string     \<comment> \<open>the opening parenthesis of a group\<close>
  | Close string    \<comment> \<open>its closing parenthesis\<close>

text \<open>A match object: the text of each group that took part, by name.\<close>

type_synonym rmatch = "(string \<times> pystr) list"

text \<open>
  \<open>match_at p s ops m\<close> matches the pattern \<open>p\<close> at the start of \<open>s\<close>.  \<open>ops\<close> holds, for
  each group opened so far, the text that was left when it opened; \<open>m\<close> holds the groups
  closed so far.  The result is the match object and the text left after the match.
\<close>

fun match_at :: "item list \<Rightarrow> pystr \<Rightarrow> (string \<times> pystr) list \<Rightarrow> rmatch \<Rightarrow> (rmatch \<times> pystr) option" where
  "match_at [] s ops m = Some (m, s)"
| "match_at (One c # p) s ops m =
     (case s of [] \<Rightarrow> None
      | x # xs \<Rightarrow> if in_cls c x then match_at p xs ops m else None)"
| "match_at (Star c # p) s ops m =
     (case s of [] \<Rightarrow> match_at p s ops m
      | x # xs \<Rightarrow>
          if in_cls c x
          then (case match_at (Star c # p) xs ops m of
                  Some r \<Rightarrow> Some r
                | None \<Rightarrow> match_at p s ops m)
          else match_at p s ops m)"
| "match_at (Lazy c # p) s ops m =
     (case match_at p s ops m of
        Some r \<Rightarrow> Some r
      | None \<Rightarrow>
          (case s of [] \<Rightarrow> None
           | x # xs \<Rightarrow> if in_cls c x then match_at (Lazy c # p) xs ops m else None))"
| "match_at (Open g # p) s ops m = match_at p s ((g, s) # ops) m"
| "match_at (Close g # p) s ops m =
     (case map_of ops g of
        None \<Rightarrow> match_at p s ops m
      | Some s0 \<Rightarrow> match_at p s ops (AList.update g (take (length s0 - length s) s0) m))"

text \<open>
  \<open>pattern.finditer(s)\<close>: the matches from left to right, each search starting where
  the previous match ended.  A pattern that matched the empty string would restart one
  character further on; every pattern of this program holds a literal character, so
  that its matches are never empty.
\<close>

function finditer :: "item list \<Rightarrow> pystr \<Rightarrow> rmatch list" where
  "finditer p [] = []"
| "finditer p (x # xs) =
     (case match_at p (x # xs) [] [] of
        None \<Rightarrow> finditer p xs
      | Some (m, rest) \<Rightarrow> m # finditer p (if length rest \<le> length xs then rest else xs))"
  by pat_completeness auto
termination
  by (relation "measure (\<lambda>(p, s). length s)") auto

text \<open>
  \<open>m.group(g)\<close>.  The outer, unnamed group of a pattern has the name \<open>1\<close>, its
  number.  In the four patterns no group is optional: each takes part in every match,
  and \<open>m.group(g)\<close> is never \<open>None\<close>.
\<close>

definition match_group :: "rmatch \<Rightarrow> string \<Rightarrow> pystr" where
  "match_group m g = (case map_of m g of None \<Rightarrow> [] | Some t \<Rightarrow> t)"

text \<open>Pieces of a pattern: a literal text, \<open>c+\<close>, and a named group around \<open>[^c]+\<close>.\<close>

definition lit :: "string \<Rightarrow> item list" where
  "lit s = map (\<lambda>c. One (Lit (of_char c))) s"

definition rep1 :: "cls \<Rightarrow> item list" where
  "rep1 c = [One c, Star c]"

definition named :: "string \<Rightarrow> item list \<Rightarrow> item list" where
  "named g p = Open g # p @ [Close g]"

definition quoted :: "string \<Rightarrow> item list" where
  "quoted g = One (Lit 34) # named g (rep1 (Except 34)) @ [One (Lit 34)]"

definition parens :: "string \<Rightarrow> item list" where
  "parens g = One (Lit 40) # named g (rep1 (Except 41)) @ [One (Lit 41)]"

text \<open>
  \<^verbatim>\<open>(CREATE TABLE\s+"(?P<schema>[^"]+)"\."(?P<table>[^"]+)"[\s\S]*?;)\<close>
\<close>

definition create_pattern :: "item list" where
  "create_pattern = named ''1'' (lit ''CREATE TABLE'' @ rep1 Space @ quoted ''schema''
     @ [One (Lit 46)] @ quoted ''table'' @ [Lazy AnyChar, One (Lit 59)])"

text \<open>
  \<^verbatim>\<open>(ALTER TABLE\s+"(?P<schema>[^"]+)"\."(?P<table>[^"]+)"[\s\S]*?;)\<close>
\<close>

definition alter_pattern :: "item list" where
  "alter_pattern = named ''1'' (lit ''ALTER TABLE'' @ rep1 Space @ quoted ''schema''
     @ [One (Lit 46)] @ quoted ''table'' @ [Lazy AnyChar, One (Lit 59)])"

text \<open>
  \<^verbatim>\<open>PRIMARY\s+KEY\s*\((?P<cols>[^\)]+)\)\<close>
\<close>

definition pk_pattern :: "item list" where
  "pk_pattern = lit ''PRIMARY'' @ rep1 Space @ lit ''KEY'' @ [Star Space] @ parens ''cols''"

text \<open>
  \<^verbatim>\<open>FOREIGN\s+KEY\s*\((?P<local>[^\)]+)\)[\s\S]*?REFERENCES\s+"(?P<ref_schema>[^"]+)"\."(?P<ref_table>[^"]+)"\s*\((?P<ref_cols>[^\)]+)\)\<close>
\<close>

definition fk_pattern :: "item list" where
  "fk_pattern = lit ''FOREIGN'' @ rep1 Space @ lit ''KEY'' @ [Star Space] @ parens ''local''
     @ [Lazy AnyChar] @ lit ''REFERENCES'' @ rep1 Space @ quoted ''ref_schema''
     @ [One (Lit 46)] @ quoted ''ref_table'' @ [Star Space] @ parens ''ref_cols''"

section \<open>The registry of tables\<close>

text \<open>
  The dictionaries of one table and of one foreign key are records.  The registry is a
  Python \<open>dict\<close> from table name to table: an association list in insertion order,
  where \<open>tables[k] = v\<close> is \<open>AList.update k v\<close> (a new key goes to the end, a known key
  keeps its place), \<open>k in tables\<close> is \<open>map_of tables k \<noteq> None\<close>, and a change made
  through \<open>tables[k]\<close> is \<open>AList.map_entry k\<close>.  The \<open>set\<close> of dependencies is a
  finite set.
\<close>

record fk_rec =
  column :: pystr
  references :: pystr

record table_rec =
  name :: pystr
  schema_name :: pystr
  schema_stmt :: pystr
  constraints_raw :: "pystr list"
  primary_keys :: "pystr list"
  foreign_keys :: "fk_rec list"
  dependencies :: "pystr fset"

type_synonym registry = "(pystr \<times> table_rec) list"

section \<open>\<open>extract_tables_and_ddl\<close>\<close>

text \<open>The body of the loop over the matches of \<open>create_pattern\<close>.\<close>

definition new_table :: "rmatch \<Rightarrow> table_rec" where
  "new_table m =
     \<lparr>name = match_group m ''table'', schema_name = match_group m ''schema'', schema_stmt = match_group m ''1'',
      constraints_raw = [], primary_keys = [], foreign_keys = [], dependencies = {||}\<rparr>"

definition create_step :: "registry \<Rightarrow> rmatch \<Rightarrow> registry" where
  "create_step tables m = AList.update (match_group m ''table'') (new_table m) tables"

definition extract_tables_and_ddl :: "pystr \<Rightarrow> registry" where
  "extract_tables_and_ddl sql_text = foldl create_step [] (finditer create_pattern sql_text)"

section \<open>\<open>parse_constraints\<close>\<close>

text \<open>\<open>[c.strip().strip('"') for c in cols.split(',')]\<close>\<close>

definition clean_cols :: "pystr \<Rightarrow> pystr list" where
  "clean_cols cols = map (\<lambda>c. strip_quote (strip c)) (split 44 cols)"

text \<open>The primary keys: one column, one \<open>PRIMARY KEY\<close> clause.\<close>

definition add_pk :: "pystr list \<Rightarrow> pystr \<Rightarrow> pystr list" where
  "add_pk pks c = (if c \<noteq> [] \<and> c \<notin> set pks then pks @ [c] else pks)"

definition pk_step :: "table_rec \<Rightarrow> rmatch \<Rightarrow> table_rec" where
  "pk_step t pm = t\<lparr>primary_keys := foldl add_pk (primary_keys t) (clean_cols (match_group pm ''cols''))\<rparr>"

text \<open>The foreign keys: the dictionary built from one clause, and the loop body.\<close>

definition fk_of :: "rmatch \<Rightarrow> fk_rec" where
  "fk_of fkm =
     (let local_cols = join (str '', '') (clean_cols (match_group fkm ''local''));
          ref_table = match_group fkm ''ref_table'';
          ref_cols = join (str '', '') (clean_cols (match_group fkm ''ref_cols''))
      in \<lparr>column = local_cols, references = ref_table @ str ''('' @ ref_cols @ str '')''\<rparr>)"

definition fk_step :: "table_rec \<Rightarrow> rmatch \<Rightarrow> table_rec" where
  "fk_step t fkm =
     t\<lparr>foreign_keys := foreign_keys t @ [fk_of fkm],
       dependencies := finsert (match_group fkm ''ref_table'') (dependencies t)\<rparr>"

text \<open>What one \<open>ALTER TABLE\<close> statement does to the table it names.\<close>

definition alter_table :: "pystr \<Rightarrow> table_rec \<Rightarrow> table_rec" where
  "alter_table stmt t =
     foldl fk_step
       (foldl pk_step (t\<lparr>constraints_raw := constraints_raw t @ [stmt]\<rparr>) (finditer pk_pattern stmt))
       (finditer fk_pattern stmt)"

text \<open>The body of the loop over the matches of \<open>alter_pattern\<close>.\<close>

definition alter_step :: "registry \<Rightarrow> rmatch \<Rightarrow> registry" where
  "alter_step tables m =
     (let stmt = match_group m ''1''; table = match_group m ''table''
      in if map_of tables table = None then tables
         else AList.map_entry table (alter_table stmt) tables)"

text \<open>
  \<open>parse_constraints\<close> changes the registry it is given and returns \<open>None\<close>; the model
  returns the registry as it is after the call.
\<close>

definition parse_constraints :: "pystr \<Rightarrow> registry \<Rightarrow> registry" where
  "parse_constraints sql_text tables = foldl alter_step tables (finditer alter_pattern sql_text)"

section \<open>\<open>to_serializable\<close>\<close>

record out_rec =
  out_name :: pystr
  out_primary_keys :: "pystr list"
  out_foreign_keys :: "fk_rec list"
  out_schema :: pystr
  out_constraints :: pystr
  out_dependencies :: "pystr list"

definition constraints_joined :: "pystr list \<Rightarrow> pystr" where
  "constraints_joined raw = (if raw \<noteq> [] then join (10 # str ''  '') (map strip raw) else [])"

definition out_of :: "table_rec \<Rightarrow> out_rec" where
  "out_of item =
     \<lparr>out_name = name item, out_primary_keys = primary_keys item,
      out_foreign_keys = foreign_keys item, out_schema = schema_stmt item,
      out_constraints = constraints_joined (constraints_raw item),
      out_dependencies = sorted_list_of_fset (dependencies item)\<rparr>"

text \<open>
  The loop over \<open>sorted(items.keys())\<close>.  \<open>items[table_name]\<close> cannot fail, the name
  being one of the keys.
\<close>

definition to_serializable :: "registry \<Rightarrow> out_rec list" where
  "to_serializable items =
     concat (map (\<lambda>table_name. case map_of items table_name of
                                   None \<Rightarrow> []
                                 | Some item \<Rightarrow> [out_of item])
                 (sort (map fst items)))"

text \<open>
  The three stages in sequence, as both routes of the service run them.  The routes
  themselves, which read the request and answer with JSON, are not modelled.
\<close>

definition parse_sql :: "pystr \<Rightarrow> out_rec list" where
  "parse_sql sql_text = to_serializable (parse_constraints sql_text (extract_tables_and_ddl sql_text))"

section \<open>Notions used to state the properties\<close>

text \<open>A list without its repetitions, each element at its first place.\<close>

fun first_seen :: "'a list \<Rightarrow> 'a list" where
  "first_seen [] = []"
| "first_seen (x # xs) = x # filter (\<lambda>y. y \<noteq> x) (first_seen xs)"

text \<open>
  The matches of \<open>CREATE TABLE\<close> statements for the table \<open>t\<close>, and the texts of the
  \<open>ALTER TABLE\<close> statements that name \<open>t\<close>, both in the order of the text.
\<close>

definition created :: "pystr \<Rightarrow> pystr \<Rightarrow> rmatch list" where
  "created sql_text t =
     filter (\<lambda>m. match_group m ''table'' = t) (finditer create_pattern sql_text)"

definition alter_stmts :: "pystr \<Rightarrow> pystr \<Rightarrow> pystr list" where
  "alter_stmts sql_text t =
     map (\<lambda>m. match_group m ''1'')
       (filter (\<lambda>m. match_group m ''table'' = t) (finditer alter_pattern sql_text))"

text \<open>
  The column names of all \<open>PRIMARY KEY\<close> clauses of a statement, and the matches of
  the \<open>FOREIGN KEY\<close> clauses of a list of statements, in the order of the text.
\<close>

definition pk_tokens :: "pystr \<Rightarrow> pystr list" where
  "pk_tokens stmt = concat (map (\<lambda>pm. clean_cols (match_group pm ''cols'')) (finditer pk_pattern stmt))"

definition fk_clauses :: "pystr list \<Rightarrow> rmatch list" where
  "fk_clauses stmts = concat (map (finditer fk_pattern) stmts)"

text \<open>
  A registry as Python can hold it and as \<open>extract_tables_and_ddl\<close> builds it: the keys
  of a \<open>dict\<close> are distinct, and every table is stored under its name.
\<close>

definition registry_ok :: "registry \<Rightarrow> bool" where
  "registry_ok tables = (distinct (map fst tables) \<and> list_all (\<lambda>(k, t). name t = k) tables)"

text \<open>
  The foreign key of a clause in the words of the specification: the column names
  joined by a comma.
\<close>

definition spec_fk_of :: "rmatch \<Rightarrow> fk_rec" where
  "spec_fk_of fkm =
     \<lparr>column = join (str '','') (clean_cols (match_group fkm ''local'')),
      references = match_group fkm ''ref_table'' @ str ''('' @
        join (str '','') (clean_cols (match_group fkm ''ref_cols'')) @ str '')''\<rparr>"

text \<open>The example of the specification: four statements, one on each line.\<close>

definition stmt_users :: pystr where
  \<open>stmt_users = str ''CREATE TABLE "public"."users" (id int);''\<close>

definition stmt_orders :: pystr where
  \<open>stmt_orders = str ''CREATE TABLE "public"."orders" (id int, user_id int);''\<close>

definition stmt_pk :: pystr where
  \<open>stmt_pk = str ''ALTER TABLE "public"."orders" ADD CONSTRAINT pk PRIMARY KEY ("id");''\<close>

definition stmt_fk :: pystr where
  \<open>stmt_fk = str ''ALTER TABLE "public"."orders" ADD CONSTRAINT fk FOREIGN KEY ("user_id") REFERENCES "public"."users" ("id");''\<close>

definition example_sql :: pystr where
  "example_sql = stmt_users @ [10] @ stmt_orders @ [10] @ stmt_pk @ [10] @ stmt_fk"

text \<open>The registry that the example builds: its two tables.\<close>

definition users_rec :: table_rec where
  "users_rec = \<lparr>name = str ''users'', schema_name = str ''public'', schema_stmt = stmt_users,
     constraints_raw = [], primary_keys = [], foreign_keys = [], dependencies = {||}\<rparr>"

definition orders_rec :: table_rec where
  "orders_rec = \<lparr>name = str ''orders'', schema_name = str ''public'', schema_stmt = stmt_orders,
     constraints_raw = [stmt_pk, stmt_fk], primary_keys = [str ''id''],
     foreign_keys = [\<lparr>column = str ''user_id'', references = str ''users(id)''\<rparr>],
     dependencies = {|str ''users''|}\<rparr>"

text \<open>A constraint on a table that no statement creates.\<close>

definition ghost_sql :: pystr where
  \<open>ghost_sql = str ''ALTER TABLE "s"."ghost" ADD PRIMARY KEY ("id");''\<close>

text \<open>A table with a repeated primary-key column and a foreign key of two columns.\<close>

definition pair_create :: pystr where
  \<open>pair_create = str ''CREATE TABLE "s"."t" (a int, b int);''\<close>

definition pair_alter :: pystr where
  \<open>pair_alter = str ''ALTER TABLE "s"."t" ADD PRIMARY KEY ("a", b , "a"), ADD FOREIGN KEY ("a", "b") REFERENCES "s"."u" ("x", "y");''\<close>

definition pair_sql :: pystr where
  "pair_sql = pair_create @ pair_alter"

definition pair_rec :: table_rec where
  "pair_rec = \<lparr>name = str ''t'', schema_name = str ''s'', schema_stmt = pair_create,
     constraints_raw = [pair_alter], primary_keys = [str ''a'', str ''b''],
     foreign_keys = [\<lparr>column = str ''a, b'', references = str ''u(x, y)''\<rparr>],
     dependencies = {|str ''u''|}\<rparr>"

text \<open>Two statements that create a table of the same name.\<close>

definition dup_first :: pystr where
  \<open>dup_first = str ''CREATE TABLE "a"."t" (x int);''\<close>

definition dup_second :: pystr where
  \<open>dup_second = str ''CREATE TABLE "b"."t" (y int);''\<close>

definition dup_sql :: pystr where
  "dup_sql = dup_first @ dup_second"

text \<open>
  What \<open>parse_constraints\<close> may do to a table: the identity of the table and its
  defining statement stay, the three lists are extended at their end, and the set of
  dependencies gains elements.
\<close>

definition grows :: "table_rec \<Rightarrow> table_rec \<Rightarrow> bool" where
  "grows t t' =
     (name t' = name t \<and> schema_name t' = schema_name t \<and> schema_stmt t' = schema_stmt t
      \<and> prefix (constraints_raw t) (constraints_raw t')
      \<and> prefix (primary_keys t) (primary_keys t')
      \<and> prefix (foreign_keys t) (foreign_keys t')
      \<and> dependencies t |\<subseteq>| dependencies t')"

text \<open>The least number of characters that a match of a pattern holds.\<close>

fun min_chars :: "item list \<Rightarrow> nat" where
  "min_chars [] = 0"
| "min_chars (One c # p) = Suc (min_chars p)"
| "min_chars (i # p) = min_chars p"

text \<open>
  The words of the specification on the \<open>constraints\<close> of an output record.
  \<open>stripped_of s t\<close>: the text \<open>t\<close> is \<open>s\<close> without the white space at its two ends, that
  is, \<open>s\<close> is \<open>t\<close> between a prefix and a suffix of white space, and \<open>t\<close> neither
  starts nor ends with white space.  \<open>joined_lines ts\<close>: the texts in a row, with a
  newline and two spaces before each but the first.
\<close>

definition stripped_of :: "pystr \<Rightarrow> pystr \<Rightarrow> bool" where
  "stripped_of s t =
     (list_ex (\<lambda>a. list_ex (\<lambda>b. s = a @ t @ b \<and> list_all is_space a \<and> list_all is_space b)
                 (suffixes s)) (prefixes s)
      \<and> (t = [] \<or> (\<not> is_space (hd t) \<and> \<not> is_space (last t))))"

definition joined_lines :: "pystr list \<Rightarrow> pystr" where
  "joined_lines ts = (case ts of [] \<Rightarrow> [] | t # ts' \<Rightarrow> t @ concat (map (\<lambda>u. [10, 32, 32] @ u) ts'))"

text \<open>
  A registry whose first table depends on two tables, and a table whose constraint
  statements have white space at their ends.
\<close>

definition sort_items :: registry where
  "sort_items =
     [(str ''users'', users_rec\<lparr>dependencies := {|str ''z'', str ''a''|}\<rparr>),
      (str ''orders'', orders_rec)]"

definition padded_item :: table_rec where
  "padded_item = users_rec\<lparr>constraints_raw := [str ''  A; '' @ [10], 9 # str ''B;'']\<rparr>"

section \<open>The matches of the patterns are not empty\<close>

lemmas pattern_defs = create_pattern_def alter_pattern_def pk_pattern_def fk_pattern_def
  lit_def rep1_def named_def quoted_def parens_def

lemma match_at_consumes:
  "match_at p s ops m = Some (m', rest) \<Longrightarrow> length rest + min_chars p \<le> length s"
proof (induction p s ops m arbitrary: m' rest rule: match_at.induct)
  case (1 s ops m)
  then show ?case by simp
next
  case (2 c p s ops m)
  then show ?case by (cases s) (auto split: if_splits)
next
  case (3 c p s ops m)
  show ?case
  proof (cases s)
    case Nil
    with 3 show ?thesis by simp
  next
    case (Cons x xs)
    show ?thesis
    proof (cases "in_cls c x")
      case False
      with 3 Cons show ?thesis by simp
    next
      case True
      show ?thesis
      proof (cases "match_at (Star c # p) xs ops m")
        case None
        with 3 Cons True show ?thesis by simp
      next
        case (Some r)
        with "3.prems" Cons True have "match_at (Star c # p) xs ops m = Some (m', rest)" by simp
        from "3.IH"(2) [OF Cons True this] Cons show ?thesis by simp
      qed
    qed
  qed
next
  case (4 c p s ops m)
  show ?case
  proof (cases "match_at p s ops m")
    case (Some r)
    with "4.prems" have "match_at p s ops m = Some (m', rest)" by simp
    from "4.IH"(1) [OF this] show ?thesis by simp
  next
    case None
    show ?thesis
    proof (cases s)
      case Nil
      with "4.prems" None show ?thesis by simp
    next
      case (Cons x xs)
      with "4.prems" None have t: "in_cls c x" and "match_at (Lazy c # p) xs ops m = Some (m', rest)"
        by (auto split: if_splits)
      from "4.IH"(2) [OF None Cons t this(2)] Cons show ?thesis by simp
    qed
  qed
next
  case (5 g p s ops m)
  then show ?case by simp
next
  case (6 g p s ops m)
  then show ?case by (cases "map_of ops g") auto
qed

lemma min_chars_patterns:
  "0 < min_chars create_pattern" "0 < min_chars alter_pattern"
  "0 < min_chars pk_pattern" "0 < min_chars fk_pattern"
  by (simp_all add: pattern_defs)

lemma finditer_nonempty_match:
  assumes "0 < min_chars p"
  shows "finditer p (x # xs) =
     (case match_at p (x # xs) [] [] of
        None \<Rightarrow> finditer p xs
      | Some (m, rest) \<Rightarrow> m # finditer p rest)"
proof (cases "match_at p (x # xs) [] []")
  case None
  then show ?thesis by simp
next
  case (Some r)
  obtain m rest where r: "r = (m, rest)" by (cases r)
  from Some r have "length rest + min_chars p \<le> length (x # xs)"
    using match_at_consumes [of p "x # xs" "[]" "[]" m rest] by simp
  with assms have "length rest \<le> length xs" by simp
  with Some r show ?thesis by simp
qed

section \<open>The loops, one table at a time\<close>

lemma map_fst_map_entry: "map fst (AList.map_entry k f xs) = map fst xs"
  by (induction xs) auto

lemma keys_alter_step: "map fst (alter_step tables m) = map fst tables"
  by (simp add: alter_step_def Let_def map_fst_map_entry)

lemma keys_foldl_alter_step: "map fst (foldl alter_step tables ms) = map fst tables"
  by (induction ms arbitrary: tables) (simp_all add: keys_alter_step)

lemma set_first_seen: "set (first_seen xs) = set xs"
  by (induction xs) auto

lemma distinct_first_seen: "distinct (first_seen xs)"
  by (induction xs) (auto simp: set_first_seen)

lemma foldl_add_pk:
  "foldl add_pk acc xs = acc @ filter (\<lambda>c. c \<notin> set acc) (first_seen (filter (\<lambda>c. c \<noteq> []) xs))"
proof (induction xs arbitrary: acc)
  case Nil
  show ?case by simp
next
  case (Cons x xs)
  show ?case
  proof (cases "x \<noteq> [] \<and> x \<notin> set acc")
    case True
    have "filter (\<lambda>c. c \<notin> set (acc @ [x])) ys = filter (\<lambda>c. c \<notin> set acc) (filter (\<lambda>y. y \<noteq> x) ys)" for ys
      by (induction ys) auto
    with True Cons [of "acc @ [x]"] show ?thesis
      by (simp add: add_pk_def)
  next
    case False
    have "x \<in> set acc \<Longrightarrow> filter (\<lambda>c. c \<notin> set acc) (filter (\<lambda>y. y \<noteq> x) ys) = filter (\<lambda>c. c \<notin> set acc) ys" for ys
      by (induction ys) auto
    with False Cons [of acc] show ?thesis
      by (auto simp: add_pk_def)
  qed
qed

lemma foldl_pk_step:
  "foldl pk_step t pms =
     t\<lparr>primary_keys := foldl add_pk (primary_keys t) (concat (map (\<lambda>pm. clean_cols (match_group pm ''cols'')) pms))\<rparr>"
  by (induction pms arbitrary: t) (simp_all add: pk_step_def)

lemma foldl_fk_step:
  "foldl fk_step t fkms =
     t\<lparr>foreign_keys := foreign_keys t @ map fk_of fkms,
       dependencies := dependencies t |\<union>| fset_of_list (map (\<lambda>fkm. match_group fkm ''ref_table'') fkms)\<rparr>"
  by (induction fkms arbitrary: t) (auto simp: fk_step_def)

lemma alter_table_eq:
  "alter_table stmt t =
     t\<lparr>constraints_raw := constraints_raw t @ [stmt],
       primary_keys := foldl add_pk (primary_keys t) (pk_tokens stmt),
       foreign_keys := foreign_keys t @ map fk_of (finditer fk_pattern stmt),
       dependencies := dependencies t |\<union>|
         fset_of_list (map (\<lambda>fkm. match_group fkm ''ref_table'') (finditer fk_pattern stmt))\<rparr>"
  by (simp add: alter_table_def foldl_pk_step foldl_fk_step pk_tokens_def)

lemma foldl_alter_table:
  "foldl (\<lambda>t stmt. alter_table stmt t) t stmts =
     t\<lparr>constraints_raw := constraints_raw t @ stmts,
       primary_keys := foldl add_pk (primary_keys t) (concat (map pk_tokens stmts)),
       foreign_keys := foreign_keys t @ map fk_of (fk_clauses stmts),
       dependencies := dependencies t |\<union>|
         fset_of_list (map (\<lambda>fkm. match_group fkm ''ref_table'') (fk_clauses stmts))\<rparr>"
proof (induction stmts arbitrary: t)
  case Nil
  show ?case by (simp add: fk_clauses_def)
next
  case (Cons stmt stmts)
  have "foldl (\<lambda>t stmt. alter_table stmt t) t (stmt # stmts) =
      foldl (\<lambda>t stmt. alter_table stmt t) (alter_table stmt t) stmts"
    by simp
  also have "\<dots> = (alter_table stmt t)
      \<lparr>constraints_raw := constraints_raw (alter_table stmt t) @ stmts,
       primary_keys := foldl add_pk (primary_keys (alter_table stmt t)) (concat (map pk_tokens stmts)),
       foreign_keys := foreign_keys (alter_table stmt t) @ map fk_of (fk_clauses stmts),
       dependencies := dependencies (alter_table stmt t) |\<union>|
         fset_of_list (map (\<lambda>fkm. match_group fkm ''ref_table'') (fk_clauses stmts))\<rparr>"
    by (rule Cons)
  finally show ?case
    by (simp add: alter_table_eq fk_clauses_def funion_assoc del: fset_of_list_map)
qed

lemma map_of_alter_step:
  "map_of (alter_step tables m) t =
     (if match_group m ''table'' = t then map_option (alter_table (match_group m ''1'')) (map_of tables t)
      else map_of tables t)"
  by (auto simp: alter_step_def Let_def map_of_map_entry split: option.splits)

lemma map_of_foldl_alter_step:
  "map_of (foldl alter_step tables ms) t =
     map_option (\<lambda>r. foldl (\<lambda>t stmt. alter_table stmt t) r
        (map (\<lambda>m. match_group m ''1'') (filter (\<lambda>m. match_group m ''table'' = t) ms)))
       (map_of tables t)"
proof (induction ms arbitrary: tables)
  case Nil
  show ?case by (simp add: option.map_ident)
next
  case (Cons m ms)
  show ?case
    by (cases "map_of tables t") (simp_all add: Cons map_of_alter_step)
qed

lemma map_of_create_step:
  "map_of (create_step tables m) t =
     (if match_group m ''table'' = t then Some (new_table m) else map_of tables t)"
  by (auto simp: create_step_def update_conv')

lemma map_of_foldl_create_step:
  "map_of (foldl create_step tables ms) t =
     (case filter (\<lambda>m. match_group m ''table'' = t) ms of
        [] \<Rightarrow> map_of tables t
      | m # ms' \<Rightarrow> Some (new_table (last (m # ms'))))"
proof (induction ms rule: rev_induct)
  case Nil
  show ?case by simp
next
  case (snoc m ms)
  show ?case
    by (cases "filter (\<lambda>m. match_group m ''table'' = t) ms")
       (simp_all add: snoc map_of_create_step)
qed

lemma keys_foldl_create_step:
  "distinct (map fst tables) \<Longrightarrow> distinct (map fst (foldl create_step tables ms))"
  by (induction ms arbitrary: tables) (simp_all add: create_step_def distinct_update)



section \<open>The program, one table at a time\<close>

lemma extract_lookup:
  "map_of (extract_tables_and_ddl sql) t =
     (case created sql t of [] \<Rightarrow> None | m # ms \<Rightarrow> Some (new_table (last (m # ms))))"
  by (simp add: extract_tables_and_ddl_def created_def map_of_foldl_create_step split: list.splits)

lemma pipeline_lookup:
  "map_of (parse_constraints sql (extract_tables_and_ddl sql)) t =
     (case created sql t of
        [] \<Rightarrow> None
      | m # ms \<Rightarrow>
          Some ((new_table (last (m # ms)))
            \<lparr>constraints_raw := alter_stmts sql t,
             primary_keys := first_seen (filter (\<lambda>c. c \<noteq> []) (concat (map pk_tokens (alter_stmts sql t)))),
             foreign_keys := map fk_of (fk_clauses (alter_stmts sql t)),
             dependencies := fset_of_list
               (map (\<lambda>fkm. match_group fkm ''ref_table'') (fk_clauses (alter_stmts sql t)))\<rparr>))"
  by (simp add: parse_constraints_def map_of_foldl_alter_step extract_lookup foldl_alter_table
      foldl_add_pk new_table_def alter_stmts_def split: list.splits del: fset_of_list_map)

lemma sorted_list_of_fset_strict: "sorted_wrt (<) (sorted_list_of_fset S)"
  by (simp add: sorted_list_of_fset.rep_eq)

lemma to_serializable_keys:
  "set ks \<subseteq> fst ` set items \<Longrightarrow>
   concat (map (\<lambda>k. case map_of items k of None \<Rightarrow> [] | Some item \<Rightarrow> [out_of item]) ks) =
   map (\<lambda>k. out_of (the (map_of items k))) ks"
proof (induction ks)
  case Nil
  show ?case by simp
next
  case (Cons k ks)
  then have "map_of items k \<noteq> None"
    by (simp add: map_of_eq_None_iff)
  with Cons show ?case by auto
qed

lemma to_serializable_eq:
  "to_serializable items = map (\<lambda>k. out_of (the (map_of items k))) (sort (map fst items))"
  unfolding to_serializable_def by (rule to_serializable_keys) simp

lemma registry_ok_name:
  assumes "registry_ok items" "k \<in> fst ` set items"
  shows "name (the (map_of items k)) = k"
proof -
  from assms(2) obtain t where t: "map_of items k = Some t"
    by (cases "map_of items k") (auto simp: map_of_eq_None_iff)
  then have "(k, t) \<in> set items" by (rule map_of_SomeD)
  with assms(1) have "name t = k"
    by (auto simp: registry_ok_def list_all_iff)
  with t show ?thesis by simp
qed

lemma out_names:
  assumes "registry_ok items"
  shows "map out_name (to_serializable items) = sort (map fst items)"
proof -
  have "map out_name (to_serializable items) =
      map (\<lambda>k. name (the (map_of items k))) (sort (map fst items))"
    by (simp add: to_serializable_eq out_of_def comp_def)
  also have "\<dots> = map (\<lambda>k. k) (sort (map fst items))"
    by (rule map_cong) (simp_all add: registry_ok_name [OF assms])
  finally show ?thesis by simp
qed

lemma registry_ok_pipeline:
  "registry_ok (parse_constraints sql (extract_tables_and_ddl sql))"
proof -
  let ?reg = "parse_constraints sql (extract_tables_and_ddl sql)"
  have keys: "distinct (map fst ?reg)"
    by (simp add: parse_constraints_def keys_foldl_alter_step extract_tables_and_ddl_def
        keys_foldl_create_step)
  have "name t = k" if "(k, t) \<in> set ?reg" for k t
  proof -
    from keys that have l: "map_of ?reg k = Some t" by (rule map_of_is_SomeI)
    show ?thesis
    proof (cases "created sql k")
      case Nil
      with l show ?thesis by (simp add: pipeline_lookup)
    next
      case (Cons m ms)
      then have "last (m # ms) \<in> set (created sql k)"
        by (metis last_in_set list.distinct(1))
      then have "match_group (last (m # ms)) ''table'' = k"
        by (simp add: created_def)
      with l Cons show ?thesis
        by (auto simp: pipeline_lookup new_table_def)
    qed
  qed
  with keys show ?thesis
    by (auto simp: registry_ok_def list_all_iff)
qed

lemma alter_step_orphan:
  "map_of tables (match_group m ''table'') = None \<Longrightarrow> alter_step tables m = tables"
  by (simp add: alter_step_def)

lemma alter_step_None_iff:
  "(map_of (alter_step tables m) k = None) = (map_of tables k = None)"
  by (simp add: map_of_alter_step)

lemma foldl_alter_step_known:
  "foldl alter_step tables ms =
   foldl alter_step tables (filter (\<lambda>m. map_of tables (match_group m ''table'') \<noteq> None) ms)"
proof (induction ms arbitrary: tables)
  case Nil
  show ?case by simp
next
  case (Cons m ms)
  have "foldl alter_step tables (m # ms) = foldl alter_step (alter_step tables m)
      (filter (\<lambda>m'. map_of tables (match_group m' ''table'') \<noteq> None) ms)"
    using Cons [of "alter_step tables m"] by (simp add: alter_step_None_iff)
  then show ?case
    by (cases "map_of tables (match_group m ''table'')") (simp_all add: alter_step_orphan)
qed

lemma grows_refl: "grows t t"
  by (simp add: grows_def)

lemma grows_trans: "grows a b \<Longrightarrow> grows b c \<Longrightarrow> grows a c"
  by (auto simp: grows_def)

lemma grows_alter_table: "grows t (alter_table stmt t)"
  by (simp add: grows_def alter_table_eq foldl_add_pk)

lemma grows_map_entry:
  "list_all2 (\<lambda>(k, t) (k', t'). k' = k \<and> grows t t') tables (AList.map_entry k (alter_table stmt) tables)"
  by (induction tables) (auto simp: grows_refl grows_alter_table intro!: list_all2_same [THEN iffD2])

lemma grows_alter_step:
  "list_all2 (\<lambda>(k, t) (k', t'). k' = k \<and> grows t t') tables (alter_step tables m)"
  by (auto simp: alter_step_def Let_def grows_map_entry grows_refl intro!: list_all2_same [THEN iffD2])

lemma grows_foldl_alter_step:
  "list_all2 (\<lambda>(k, t) (k', t'). k' = k \<and> grows t t') tables (foldl alter_step tables ms)"
proof (induction ms arbitrary: tables)
  case Nil
  show ?case by (auto simp: grows_refl intro!: list_all2_same [THEN iffD2])
next
  case (Cons m ms)
  have "list_all2 (\<lambda>(k, t) (k', t'). k' = k \<and> grows t t') tables (foldl alter_step (alter_step tables m) ms)"
    using grows_alter_step [of tables m] Cons [of "alter_step tables m"]
    by (rule list_all2_trans [rotated]) (auto intro: grows_trans)
  then show ?case by simp
qed

section \<open>Stripping and joining\<close>

lemma stripped_of_iff:
  "stripped_of s t =
     ((\<exists>a b. s = a @ t @ b \<and> list_all is_space a \<and> list_all is_space b)
      \<and> (t = [] \<or> (\<not> is_space (hd t) \<and> \<not> is_space (last t))))"
proof -
  have "(\<exists>a\<in>set (prefixes s). \<exists>b\<in>set (suffixes s).
          s = a @ t @ b \<and> list_all is_space a \<and> list_all is_space b) =
        (\<exists>a b. s = a @ t @ b \<and> list_all is_space a \<and> list_all is_space b)"
  proof
    assume "\<exists>a\<in>set (prefixes s). \<exists>b\<in>set (suffixes s).
          s = a @ t @ b \<and> list_all is_space a \<and> list_all is_space b"
    then show "\<exists>a b. s = a @ t @ b \<and> list_all is_space a \<and> list_all is_space b"
      by blast
  next
    assume "\<exists>a b. s = a @ t @ b \<and> list_all is_space a \<and> list_all is_space b"
    then obtain a b where ab: "s = a @ t @ b" "list_all is_space a" "list_all is_space b"
      by blast
    from ab(1) have "prefix a s" by (rule prefixI)
    then have a: "a \<in> set (prefixes s)" by (simp only: in_set_prefixes)
    from ab(1) have "s = (a @ t) @ b" by simp
    then have "suffix b s" by (rule suffixI)
    then have b: "b \<in> set (suffixes s)" by (simp only: in_set_suffixes)
    from a b ab show "\<exists>a\<in>set (prefixes s). \<exists>b\<in>set (suffixes s).
          s = a @ t @ b \<and> list_all is_space a \<and> list_all is_space b"
      by blast
  qed
  then show ?thesis
    unfolding stripped_of_def list_ex_iff by (rule arg_cong2 [where f = "(\<and>)"]) simp
qed

lemma strip_where_unique:
  assumes "s = a @ t @ b" "list_all P a" "list_all P b" "t = [] \<or> (\<not> P (hd t) \<and> \<not> P (last t))"
  shows "strip_where P s = t"
proof (cases "t = []")
  case True
  with assms have "\<forall>x\<in>set s. P x" by (auto simp: list_all_iff)
  then have dn: "dropWhile P s = []" by (simp only: dropWhile_eq_Nil_conv)
  show ?thesis unfolding strip_where_def dn using True by simp
next
  case False
  with assms(4) have h: "\<not> P (hd t)" and l: "\<not> P (last t)" by auto
  from False obtain x t' where t: "t = x # t'" by (cases t) auto
  from assms(2) have "dropWhile P (a @ t @ b) = dropWhile P (t @ b)"
    by (simp add: list_all_iff dropWhile_append)
  also from h t have "\<dots> = t @ b" by simp
  finally have d: "dropWhile P s = t @ b" using assms(1) by simp
  from False obtain y u where u: "rev t = y # u" by (cases "rev t") auto
  with l False have "\<not> P y" by (metis hd_rev list.sel(1))
  with u have "dropWhile P (rev t) = rev t" by simp
  with assms(3) have "dropWhile P (rev b @ rev t) = rev t"
    by (simp add: list_all_iff dropWhile_append)
  with d show ?thesis by (simp add: strip_where_def)
qed

lemma strip_where_ends:
  assumes "strip_where P s \<noteq> []"
  shows "\<not> P (hd (strip_where P s)) \<and> \<not> P (last (strip_where P s))"
proof -
  let ?d = "dropWhile P s"
  let ?e = "dropWhile P (rev ?d)"
  from assms have e: "?e \<noteq> []" by (simp add: strip_where_def)
  then have d: "?d \<noteq> []" by (metis dropWhile.simps(1) rev.simps(1))
  have "last (rev ?e) = hd ?e" using e by (simp add: last_rev)
  with hd_dropWhile [OF e] have 1: "\<not> P (last (strip_where P s))"
    by (simp add: strip_where_def)
  have "rev ?d = takeWhile P (rev ?d) @ ?e" by simp
  then have "last (rev ?d) = last ?e" using e by (metis last_appendR)
  with d have "last ?e = hd ?d" by (simp add: last_rev)
  with hd_dropWhile [OF d] e have 2: "\<not> P (hd (strip_where P s))"
    by (simp add: strip_where_def hd_rev)
  from 1 2 show ?thesis by simp
qed

lemma strip_where_split:
  "\<exists>a b. s = a @ strip_where P s @ b \<and> list_all P a \<and> list_all P b"
proof -
  let ?d = "dropWhile P s"
  let ?a = "takeWhile P s"
  let ?b = "rev (takeWhile P (rev ?d))"
  have "rev (takeWhile P (rev ?d) @ dropWhile P (rev ?d)) = rev (rev ?d)"
    by (simp only: takeWhile_dropWhile_id)
  then have "rev (dropWhile P (rev ?d)) @ rev (takeWhile P (rev ?d)) = ?d"
    by (simp only: rev_append rev_rev_ident)
  then have "?d = strip_where P s @ ?b" by (simp only: strip_where_def)
  then have "?a @ strip_where P s @ ?b = s" by (metis takeWhile_dropWhile_id)
  moreover have "list_all P ?a" by (auto simp: list_all_iff dest: set_takeWhileD)
  moreover have "list_all P ?b" by (auto simp: list_all_iff dest: set_takeWhileD)
  ultimately show ?thesis by metis
qed

lemma stripped_of_strip: "stripped_of s (strip s)"
  using strip_where_split [of s is_space] strip_where_ends [of is_space s]
  by (auto simp: stripped_of_iff strip_def)

lemma stripped_of_unique: "stripped_of s t \<Longrightarrow> t = strip s"
  unfolding stripped_of_iff strip_def
  by (metis strip_where_unique)

lemma stripped_of_all: "list_all2 stripped_of raw ts \<Longrightarrow> ts = map strip raw"
  by (induction raw ts rule: list_all2_induct) (auto dest: stripped_of_unique)

lemma join_concat:
  "join sep ts = (case ts of [] \<Rightarrow> [] | t # ts' \<Rightarrow> t @ concat (map (\<lambda>u. sep @ u) ts'))"
  by (induction sep ts rule: join.induct) simp_all


lemma out_constraints_lines:
  "out_constraints (out_of item) = joined_lines (map strip (constraints_raw item))"
  by (simp add: out_of_def constraints_joined_def join_concat joined_lines_def str_def)

lemma sorted_list_of_fset_two:
  "x < y \<Longrightarrow> sorted_list_of_fset {|y, x|} = [x, y :: pystr]"
  by (auto simp: sorted_list_of_fset.rep_eq)

section \<open>The patterns on the example texts\<close>

lemmas char_defs = str_def ci_eq_def is_space_def
lemmas example_defs = example_sql_def stmt_users_def stmt_orders_def stmt_pk_def stmt_fk_def
lemmas pair_defs = pair_sql_def pair_create_def pair_alter_def
lemmas dup_defs = dup_sql_def dup_first_def dup_second_def
lemmas strip_defs = clean_cols_def strip_def strip_quote_def strip_where_def

lemma example_creates:
  "finditer create_pattern example_sql =
     [[(''schema'', str ''public''), (''table'', str ''users''), (''1'', stmt_users)],
      [(''schema'', str ''public''), (''table'', str ''orders''), (''1'', stmt_orders)]]"
  by (simp add: pattern_defs char_defs example_defs)

lemma example_alters:
  "finditer alter_pattern example_sql =
     [[(''schema'', str ''public''), (''table'', str ''orders''), (''1'', stmt_pk)],
      [(''schema'', str ''public''), (''table'', str ''orders''), (''1'', stmt_fk)]]"
  by (simp add: pattern_defs char_defs example_defs)

lemma example_pk_clauses:
  \<open>finditer pk_pattern stmt_pk = [[(''cols'', str ''"id"'')]]\<close>
  \<open>finditer pk_pattern stmt_fk = []\<close>
  by (simp_all add: pattern_defs char_defs example_defs)

lemma example_fk_clauses:
  \<open>finditer fk_pattern stmt_pk = []\<close>
  \<open>finditer fk_pattern stmt_fk =
     [[(''local'', str ''"user_id"''), (''ref_schema'', str ''public''),
       (''ref_table'', str ''users''), (''ref_cols'', str ''"id"'')]]\<close>
  by (simp_all add: pattern_defs char_defs example_defs)

lemma example_extract:
  "extract_tables_and_ddl example_sql =
     [(str ''users'', users_rec), (str ''orders'', new_table [(''schema'', str ''public''), (''table'', str ''orders''), (''1'', stmt_orders)])]"
  by (simp add: extract_tables_and_ddl_def example_creates create_step_def new_table_def
      match_group_def users_rec_def str_def)

lemma example_alter_pk:
  "alter_table stmt_pk t = t\<lparr>constraints_raw := constraints_raw t @ [stmt_pk],
     primary_keys := add_pk (primary_keys t) (str ''id'')\<rparr>"
  by (simp add: alter_table_def example_pk_clauses example_fk_clauses pk_step_def clean_cols_def
      match_group_def strip_def strip_quote_def strip_where_def char_defs)

lemma example_alter_fk:
  "alter_table stmt_fk t = t\<lparr>constraints_raw := constraints_raw t @ [stmt_fk],
     foreign_keys := foreign_keys t @ [\<lparr>column = str ''user_id'', references = str ''users(id)''\<rparr>],
     dependencies := finsert (str ''users'') (dependencies t)\<rparr>"
  by (simp add: alter_table_def example_pk_clauses example_fk_clauses fk_step_def fk_of_def clean_cols_def
      match_group_def strip_def strip_quote_def strip_where_def char_defs)

lemma example_registry:
  "parse_constraints example_sql (extract_tables_and_ddl example_sql) =
     [(str ''users'', users_rec), (str ''orders'', orders_rec)]"
  by (simp add: parse_constraints_def example_alters example_extract alter_step_def match_group_def
      example_alter_pk example_alter_fk new_table_def add_pk_def orders_rec_def str_def Let_def)

lemma sorted_list_of_fset_empty: "sorted_list_of_fset {||} = ([] :: pystr list)"
  by (simp add: sorted_list_of_fset.rep_eq)

lemma sorted_list_of_fset_single: "sorted_list_of_fset {|x|} = [x :: pystr]"
  by (simp add: sorted_list_of_fset.rep_eq)

lemma example_output:
  "parse_sql example_sql =
     [\<lparr>out_name = str ''orders'', out_primary_keys = [str ''id''],
       out_foreign_keys = [\<lparr>column = str ''user_id'', references = str ''users(id)''\<rparr>],
       out_schema = stmt_orders,
       out_constraints = stmt_pk @ [10] @ str ''  '' @ stmt_fk,
       out_dependencies = [str ''users'']\<rparr>,
      \<lparr>out_name = str ''users'', out_primary_keys = [], out_foreign_keys = [],
       out_schema = stmt_users, out_constraints = [], out_dependencies = []\<rparr>]"
  unfolding parse_sql_def example_registry
  by (simp add: to_serializable_def out_of_def users_rec_def orders_rec_def
      constraints_joined_def sorted_list_of_fset_empty sorted_list_of_fset_single
      strip_def strip_where_def char_defs example_defs)

lemma pair_creates:
  "finditer create_pattern pair_sql = [[(''schema'', str ''s''), (''table'', str ''t''), (''1'', pair_create)]]"
  by (simp add: pattern_defs char_defs pair_defs)

lemma pair_alters:
  "finditer alter_pattern pair_sql = [[(''schema'', str ''s''), (''table'', str ''t''), (''1'', pair_alter)]]"
  by (simp add: pattern_defs char_defs pair_defs)

lemma pair_pk_clauses:
  \<open>finditer pk_pattern pair_alter = [[(''cols'', str ''"a", b , "a"'')]]\<close>
  by (simp add: pattern_defs char_defs pair_defs)

lemma pair_fk_clauses:
  \<open>finditer fk_pattern pair_alter =
     [[(''local'', str ''"a", "b"''), (''ref_schema'', str ''s''),
       (''ref_table'', str ''u''), (''ref_cols'', str ''"x", "y"'')]]\<close>
  by (simp add: pattern_defs char_defs pair_defs)

lemma pair_clean_cols:
  \<open>clean_cols (str ''"a", b , "a"'') = [str ''a'', str ''b'', str ''a'']\<close>
  \<open>clean_cols (str ''"a", "b"'') = [str ''a'', str ''b'']\<close>
  \<open>clean_cols (str ''"x", "y"'') = [str ''x'', str ''y'']\<close>
  by (simp_all add: strip_defs char_defs)

lemma pair_alter_table:
  "alter_table pair_alter t = t\<lparr>constraints_raw := constraints_raw t @ [pair_alter],
     primary_keys := foldl add_pk (primary_keys t) [str ''a'', str ''b'', str ''a''],
     foreign_keys := foreign_keys t @ [\<lparr>column = str ''a, b'', references = str ''u(x, y)''\<rparr>],
     dependencies := finsert (str ''u'') (dependencies t)\<rparr>"
  unfolding alter_table_def pair_pk_clauses pair_fk_clauses
  by (simp add: pk_step_def fk_step_def fk_of_def match_group_def pair_clean_cols) (simp add: str_def)

lemma pair_registry:
  "parse_constraints pair_sql (extract_tables_and_ddl pair_sql) = [(str ''t'', pair_rec)]"
  unfolding parse_constraints_def extract_tables_and_ddl_def pair_creates pair_alters
  by (simp add: create_step_def alter_step_def match_group_def pair_alter_table new_table_def
      add_pk_def pair_rec_def Let_def) (simp add: str_def)

lemma pair_alter_stmts: "alter_stmts pair_sql (str ''t'') = [pair_alter]"
  by (simp add: alter_stmts_def pair_alters match_group_def)

lemma pair_pk_tokens:
  "concat (map pk_tokens (alter_stmts pair_sql (str ''t''))) = [str ''a'', str ''b'', str ''a'']"
  by (simp add: pair_alter_stmts pk_tokens_def pair_pk_clauses match_group_def pair_clean_cols)

lemma ghost_creates: "finditer create_pattern ghost_sql = []"
  by (simp add: pattern_defs char_defs ghost_sql_def)

lemma ghost_alters:
  "finditer alter_pattern ghost_sql = [[(''schema'', str ''s''), (''table'', str ''ghost''), (''1'', ghost_sql)]]"
  by (simp add: pattern_defs char_defs ghost_sql_def)

lemma dup_creates:
  "finditer create_pattern dup_sql =
     [[(''schema'', str ''a''), (''table'', str ''t''), (''1'', dup_first)],
      [(''schema'', str ''b''), (''table'', str ''t''), (''1'', dup_second)]]"
  by (simp add: pattern_defs char_defs dup_defs)

section \<open>The claims\<close>

text \<open>
  C1. On the example of four statements, \<open>extract_tables_and_ddl\<close>, then
  \<open>parse_constraints\<close>, then \<open>to_serializable\<close> give exactly two records, \<open>orders\<close>
  before \<open>users\<close>: \<open>orders\<close> has the primary keys \<open>["id"]\<close>, the one foreign key
  \<open>{"column": "user_id", "references": "users(id)"}\<close> and the dependencies
  \<open>["users"]\<close>; \<open>users\<close> has no primary key and no dependency.
\<close>

theorem example_pipeline_output:
  "to_serializable (parse_constraints example_sql (extract_tables_and_ddl example_sql)) =
     [\<lparr>out_name = str ''orders'', out_primary_keys = [str ''id''],
       out_foreign_keys = [\<lparr>column = str ''user_id'', references = str ''users(id)''\<rparr>],
       out_schema = stmt_orders,
       out_constraints = stmt_pk @ [10] @ str ''  '' @ stmt_fk,
       out_dependencies = [str ''users'']\<rparr>,
      \<lparr>out_name = str ''users'', out_primary_keys = [], out_foreign_keys = [],
       out_schema = stmt_users, out_constraints = [], out_dependencies = []\<rparr>]"
  using example_output by (simp add: parse_sql_def)

text \<open>
  C2. For every table of the registry that the program builds from a text, the list of
  primary-key columns after \<open>parse_constraints\<close> has no repeated name.  It is made of
  the column lists of all \<open>PRIMARY KEY\<close> clauses of all \<open>ALTER TABLE\<close> statements of
  the table, in the order of the text: each list split at the commas, each piece
  stripped of white space and then of quote characters, the empty pieces dropped, and
  every name kept at its first appearance only.
\<close>

theorem primary_keys_distinct:
  assumes "map_of (parse_constraints sql (extract_tables_and_ddl sql)) t = Some r"
  shows "primary_keys r = first_seen (filter (\<lambda>c. c \<noteq> []) (concat (map pk_tokens (alter_stmts sql t))))
    \<and> distinct (primary_keys r)"
  using assms
  by (auto simp: pipeline_lookup distinct_first_seen split: list.splits)

theorem primary_keys_distinct_witness:
  "map_of (parse_constraints pair_sql (extract_tables_and_ddl pair_sql)) (str ''t'') = Some pair_rec
   \<and> (primary_keys pair_rec =
        first_seen (filter (\<lambda>c. c \<noteq> []) (concat (map pk_tokens (alter_stmts pair_sql (str ''t'')))))
      \<and> distinct (primary_keys pair_rec))"
proof -
  have h: "map_of (parse_constraints pair_sql (extract_tables_and_ddl pair_sql)) (str ''t'') = Some pair_rec"
    by (simp add: pair_registry)
  show ?thesis by (rule conjI [OF h primary_keys_distinct [OF h]])
qed

text \<open>
  C3. For every text and every table of the registry after \<open>parse_constraints\<close>, the
  foreign keys are the records of the \<open>FOREIGN KEY\<close> clauses of the statements of the
  table, one record for each clause, and the set of dependencies is exactly the set of
  the tables that these clauses reference.  The list of dependencies in the output has
  the same elements: the serializer adds none.
\<close>

theorem dependencies_from_foreign_keys:
  assumes "map_of (parse_constraints sql (extract_tables_and_ddl sql)) t = Some r"
  shows "foreign_keys r = map fk_of (fk_clauses (alter_stmts sql t))
    \<and> dependencies r = fset_of_list (map (\<lambda>fkm. match_group fkm ''ref_table'') (fk_clauses (alter_stmts sql t)))
    \<and> set (out_dependencies (out_of r)) = set (map (\<lambda>fkm. match_group fkm ''ref_table'') (fk_clauses (alter_stmts sql t)))"
  using assms
  by (auto simp: pipeline_lookup out_of_def fset_of_list.rep_eq split: list.splits simp del: fset_of_list_map)

theorem dependencies_from_foreign_keys_witness:
  "map_of (parse_constraints pair_sql (extract_tables_and_ddl pair_sql)) (str ''t'') = Some pair_rec
   \<and> (foreign_keys pair_rec = map fk_of (fk_clauses (alter_stmts pair_sql (str ''t'')))
    \<and> dependencies pair_rec =
        fset_of_list (map (\<lambda>fkm. match_group fkm ''ref_table'') (fk_clauses (alter_stmts pair_sql (str ''t''))))
    \<and> set (out_dependencies (out_of pair_rec)) =
        set (map (\<lambda>fkm. match_group fkm ''ref_table'') (fk_clauses (alter_stmts pair_sql (str ''t'')))))"
proof -
  have h: "map_of (parse_constraints pair_sql (extract_tables_and_ddl pair_sql)) (str ''t'') = Some pair_rec"
    by (simp add: pair_registry)
  show ?thesis by (rule conjI [OF h dependencies_from_foreign_keys [OF h]])
qed

text \<open>
  C4. For every registry, the output of \<open>to_serializable\<close> is in ascending order of the
  names: of two records of the output, the first comes before the second if and only if
  its name is the smaller one.  The record of each key carries this key as its name,
  and its dependencies are the elements of the set of dependencies of the table, each
  once, in ascending order.
\<close>

theorem output_sorted_by_name:
  assumes "registry_ok items"
  shows "(\<forall>i j. i < length (to_serializable items) \<and> j < length (to_serializable items) \<longrightarrow>
            (i < j) = (out_name (to_serializable items ! i) < out_name (to_serializable items ! j)))
    \<and> (\<forall>out \<in> set (to_serializable items). sorted_wrt (<) (out_dependencies out))
    \<and> list_all2 (\<lambda>k out. \<exists>item. map_of items k = Some item \<and> out_name out = k
           \<and> set (out_dependencies out) = fset (dependencies item)
           \<and> sorted_wrt (<) (out_dependencies out))
         (sort (map fst items)) (to_serializable items)"
proof (intro conjI allI impI ballI)
  let ?out = "to_serializable items"
  let ?names = "map out_name ?out"
  from assms have "distinct (sort (map fst items))"
    by (simp add: registry_ok_def)
  then have strict: "sorted_wrt (<) ?names"
    by (simp add: out_names [OF assms] strict_sorted_iff)
  fix i j assume ij: "i < length ?out \<and> j < length ?out"
  have less: "?names ! a < ?names ! b" if "a < b" "b < length ?out" for a b
    using strict that by (simp add: sorted_wrt_iff_nth_less)
  show "(i < j) = (out_name (?out ! i) < out_name (?out ! j))"
  proof
    assume "i < j"
    with ij less [of i j] show "out_name (?out ! i) < out_name (?out ! j)" by simp
  next
    assume lt: "out_name (?out ! i) < out_name (?out ! j)"
    show "i < j"
    proof (rule ccontr)
      assume "\<not> i < j"
      then consider "j < i" | "i = j" by linarith
      then show False
      proof cases
        case 1
        with ij less [of j i] lt show False by simp
      next
        case 2
        with lt show False by simp
      qed
    qed
  qed
next
  fix out assume "out \<in> set (to_serializable items)"
  then obtain k where "out = out_of (the (map_of items k))"
    by (auto simp: to_serializable_eq)
  then show "sorted_wrt (<) (out_dependencies out)"
    by (simp add: out_of_def sorted_list_of_fset_strict)
next
  have "\<exists>item. map_of items k = Some item \<and> out_name (out_of (the (map_of items k))) = k
           \<and> set (out_dependencies (out_of (the (map_of items k)))) = fset (dependencies item)
           \<and> sorted_wrt (<) (out_dependencies (out_of (the (map_of items k))))"
    if "k \<in> set (sort (map fst items))" for k
  proof -
    from that have k: "k \<in> fst ` set items" by simp
    then have "map_of items k \<noteq> None"
      by (simp add: map_of_eq_None_iff)
    then obtain item where item: "map_of items k = Some item" by auto
    from registry_ok_name [OF assms k] item have "name item = k" by simp
    with item show ?thesis
      by (simp add: out_of_def sorted_list_of_fset_strict)
  qed
  then show "list_all2 (\<lambda>k out. \<exists>item. map_of items k = Some item \<and> out_name out = k
           \<and> set (out_dependencies out) = fset (dependencies item)
           \<and> sorted_wrt (<) (out_dependencies out))
         (sort (map fst items)) (to_serializable items)"
    unfolding to_serializable_eq list_all2_map2 by (simp add: list_all2_same)
qed

theorem output_sorted_by_name_witness:
  "registry_ok sort_items
   \<and> ((0::nat) < 1) =
       (out_name (to_serializable sort_items ! 0) < out_name (to_serializable sort_items ! 1))
   \<and> map out_name (to_serializable sort_items) = [str ''orders'', str ''users'']
   \<and> map out_dependencies (to_serializable sort_items) = [[str ''users''], [str ''a'', str ''z'']]"
proof -
  have h: "registry_ok sort_items"
    by (simp add: sort_items_def registry_ok_def users_rec_def orders_rec_def str_def)
  have az: "str ''a'' < str ''z''" by (simp add: str_def)
  have o: "to_serializable sort_items =
      [out_of orders_rec, out_of (users_rec\<lparr>dependencies := {|str ''z'', str ''a''|}\<rparr>)]"
    by (simp add: to_serializable_def sort_items_def str_def)
  have n: "map out_name (to_serializable sort_items) = [str ''orders'', str ''users'']"
    by (simp add: o out_of_def orders_rec_def users_rec_def)
  have d: "map out_dependencies (to_serializable sort_items) = [[str ''users''], [str ''a'', str ''z'']]"
    by (simp add: o out_of_def orders_rec_def users_rec_def sorted_list_of_fset_two [OF az]
        sorted_list_of_fset_single)
  from o have l: "0 < length (to_serializable sort_items) \<and> 1 < length (to_serializable sort_items)"
    by simp
  from output_sorted_by_name [OF h]
  have "\<forall>i j. i < length (to_serializable sort_items) \<and> j < length (to_serializable sort_items) \<longrightarrow>
            (i < j) = (out_name (to_serializable sort_items ! i) < out_name (to_serializable sort_items ! j))"
    by (rule conjunct1)
  then have "((0::nat) < 1) =
      (out_name (to_serializable sort_items ! 0) < out_name (to_serializable sort_items ! 1))"
    using l by blast
  with h n d show ?thesis by blast
qed

text \<open>
  C5. An \<open>ALTER TABLE\<close> statement whose table is not a key of the registry is skipped:
  the loop body leaves the registry as it is, so that \<open>parse_constraints\<close> does what
  it would do on the statements of known tables alone, and nothing is raised.  A text
  that only holds \<open>ALTER TABLE "s"."ghost" ADD PRIMARY KEY ("id");\<close> gives an empty
  registry and an empty output.
\<close>

theorem orphan_alter_skipped:
  "(map_of tables (match_group m ''table'') = None \<longrightarrow> alter_step tables m = tables)
   \<and> parse_constraints sql tables =
       foldl alter_step tables
         (filter (\<lambda>m. map_of tables (match_group m ''table'') \<noteq> None) (finditer alter_pattern sql))
   \<and> extract_tables_and_ddl ghost_sql = []
   \<and> parse_constraints ghost_sql (extract_tables_and_ddl ghost_sql) = []
   \<and> to_serializable (parse_constraints ghost_sql (extract_tables_and_ddl ghost_sql)) = []"
proof -
  have e: "extract_tables_and_ddl ghost_sql = []"
    by (simp add: extract_tables_and_ddl_def ghost_creates)
  have p: "parse_constraints ghost_sql [] = []"
    by (simp add: parse_constraints_def ghost_alters alter_step_def)
  have "parse_constraints sql tables =
       foldl alter_step tables
         (filter (\<lambda>m. map_of tables (match_group m ''table'') \<noteq> None) (finditer alter_pattern sql))"
    unfolding parse_constraints_def by (rule foldl_alter_step_known)
  then show ?thesis
    by (simp add: alter_step_orphan e p to_serializable_def)
qed

theorem orphan_alter_skipped_witness:
  "map_of [] (match_group [(''schema'', str ''s''), (''table'', str ''ghost''), (''1'', ghost_sql)] ''table'') = None
   \<and> alter_step [] [(''schema'', str ''s''), (''table'', str ''ghost''), (''1'', ghost_sql)] = []"
  using orphan_alter_skipped [of "[]" "[(''schema'', str ''s''), (''table'', str ''ghost''), (''1'', ghost_sql)]" "[]"]
  by simp

text \<open>
  C6. When several \<open>CREATE TABLE\<close> statements of a text name the same table, the
  registry of \<open>extract_tables_and_ddl\<close> holds for this name the record of the last of
  them: its schema and its text, and nothing of the earlier ones.
\<close>

theorem duplicate_create_last_wins:
  assumes "created sql t = ms @ [m]"
  shows "map_of (extract_tables_and_ddl sql) t =
     Some \<lparr>name = t, schema_name = match_group m ''schema'', schema_stmt = match_group m ''1'',
           constraints_raw = [], primary_keys = [], foreign_keys = [], dependencies = {||}\<rparr>"
proof -
  from assms have "m \<in> set (created sql t)" by simp
  then have "match_group m ''table'' = t" by (simp add: created_def)
  with assms show ?thesis
    by (cases ms) (simp_all add: extract_lookup new_table_def)
qed

theorem duplicate_create_last_wins_witness:
  "created dup_sql (str ''t'') =
     [[(''schema'', str ''a''), (''table'', str ''t''), (''1'', dup_first)]] @
     [[(''schema'', str ''b''), (''table'', str ''t''), (''1'', dup_second)]]
   \<and> map_of (extract_tables_and_ddl dup_sql) (str ''t'') =
     Some \<lparr>name = str ''t'', schema_name = str ''b'', schema_stmt = dup_second,
           constraints_raw = [], primary_keys = [], foreign_keys = [], dependencies = {||}\<rparr>"
proof -
  have c: "created dup_sql (str ''t'') =
     [[(''schema'', str ''a''), (''table'', str ''t''), (''1'', dup_first)]] @
     [[(''schema'', str ''b''), (''table'', str ''t''), (''1'', dup_second)]]"
    by (simp add: created_def dup_creates match_group_def)
  show ?thesis
    using c duplicate_create_last_wins [OF c] by (simp add: match_group_def)
qed

text \<open>
  C7, as amended.  For every \<open>FOREIGN KEY\<close> clause of the statements of a table,
  \<open>parse_constraints\<close> appends one record, in the order of the text and without removing
  repetitions.  Its \<open>references\<close> is the referenced table, without its schema, followed
  by the referenced columns in parentheses; its \<open>column\<close> is the local columns.  The
  columns are stripped of white space and quotes, kept in their order, and joined by a
  comma followed by a space.
\<close>

theorem foreign_key_record_shape:
  assumes "map_of (parse_constraints sql (extract_tables_and_ddl sql)) t = Some r"
  shows "foreign_keys r =
     map (\<lambda>fkm. \<lparr>column = join (str '', '') (clean_cols (match_group fkm ''local'')),
                  references = match_group fkm ''ref_table'' @ str ''('' @
                    join (str '', '') (clean_cols (match_group fkm ''ref_cols'')) @ str '')''\<rparr>)
       (fk_clauses (alter_stmts sql t))"
  using assms
  by (auto simp: pipeline_lookup fk_of_def Let_def split: list.splits)

theorem foreign_key_record_shape_witness:
  "map_of (parse_constraints pair_sql (extract_tables_and_ddl pair_sql)) (str ''t'') = Some pair_rec
   \<and> foreign_keys pair_rec =
     map (\<lambda>fkm. \<lparr>column = join (str '', '') (clean_cols (match_group fkm ''local'')),
                  references = match_group fkm ''ref_table'' @ str ''('' @
                    join (str '', '') (clean_cols (match_group fkm ''ref_cols'')) @ str '')''\<rparr>)
       (fk_clauses (alter_stmts pair_sql (str ''t'')))"
proof -
  have h: "map_of (parse_constraints pair_sql (extract_tables_and_ddl pair_sql)) (str ''t'') = Some pair_rec"
    by (simp add: pair_registry)
  show ?thesis by (rule conjI [OF h foreign_key_record_shape [OF h]])
qed

text \<open>
  C7, as stated, fails: with the columns joined by a comma alone, the clause
  \<open>FOREIGN KEY ("a", "b") REFERENCES "s"."u" ("x", "y")\<close> would give the column
  \<open>a,b\<close> and the reference \<open>u(x,y)\<close>, where the program gives \<open>a, b\<close> and
  \<open>u(x, y)\<close>.
\<close>

theorem foreign_key_comma_join_counterexample:
  "map_of (parse_constraints pair_sql (extract_tables_and_ddl pair_sql)) (str ''t'') = Some pair_rec
   \<and> foreign_keys pair_rec = [\<lparr>column = str ''a, b'', references = str ''u(x, y)''\<rparr>]
   \<and> map spec_fk_of (fk_clauses (alter_stmts pair_sql (str ''t''))) =
       [\<lparr>column = str ''a,b'', references = str ''u(x,y)''\<rparr>]
   \<and> foreign_keys pair_rec \<noteq> map spec_fk_of (fk_clauses (alter_stmts pair_sql (str ''t'')))"
proof -
  have s: "map spec_fk_of (fk_clauses (alter_stmts pair_sql (str ''t''))) =
       [\<lparr>column = str ''a,b'', references = str ''u(x,y)''\<rparr>]"
    unfolding pair_alter_stmts fk_clauses_def
    by (simp add: pair_fk_clauses spec_fk_of_def match_group_def pair_clean_cols) (simp add: str_def)
  have d: "foreign_keys pair_rec \<noteq> [\<lparr>column = str ''a,b'', references = str ''u(x,y)''\<rparr>]"
    by (simp add: pair_rec_def str_def)
  show ?thesis
    using s d by (simp add: pair_registry) (simp add: pair_rec_def)
qed

text \<open>
  C8. The \<open>constraints\<close> of the output record of a table is one string: the statements
  of \<open>constraints_raw\<close>, each without the white space at its two ends, in a row with a
  newline and two spaces between them; it is empty when there is no statement.  Every
  statement has exactly one such stripped form, the one that \<open>strip\<close> computes.  This
  holds for the record of every key, in the order of the output.
\<close>

theorem constraints_stripped_joined:
  "list_all2 stripped_of (constraints_raw item) (map strip (constraints_raw item))
   \<and> (list_all2 stripped_of (constraints_raw item) ts \<longrightarrow>
        out_constraints (out_of item) = joined_lines ts)
   \<and> out_constraints (out_of item) = join (10 # str ''  '') (map strip (constraints_raw item))
   \<and> out_constraints (out_of (item\<lparr>constraints_raw := []\<rparr>)) = []
   \<and> list_all2 (\<lambda>k out. \<exists>item ts. map_of items k = Some item
         \<and> list_all2 stripped_of (constraints_raw item) ts
         \<and> out_constraints out = joined_lines ts)
       (sort (map fst items)) (to_serializable items)"
proof -
  have s: "list_all2 stripped_of raw (map strip raw)" for raw
    unfolding list_all2_map2 by (simp add: list_all2_same stripped_of_strip)
  have b: "out_constraints (out_of item) = joined_lines ts"
    if "list_all2 stripped_of (constraints_raw item) ts"
    using stripped_of_all [OF that] by (simp add: out_constraints_lines)
  have c: "out_constraints (out_of item) = join (10 # str ''  '') (map strip (constraints_raw item))"
    by (simp add: out_of_def constraints_joined_def)
  have e: "out_constraints (out_of (item\<lparr>constraints_raw := []\<rparr>)) = []"
    by (simp add: out_of_def constraints_joined_def)
  have "\<exists>item ts. map_of items k = Some item
         \<and> list_all2 stripped_of (constraints_raw item) ts
         \<and> out_constraints (out_of (the (map_of items k))) = joined_lines ts"
    if "k \<in> set (sort (map fst items))" for k
  proof -
    from that have "map_of items k \<noteq> None"
      by (simp add: map_of_eq_None_iff)
    then obtain item where item: "map_of items k = Some item" by auto
    have "list_all2 stripped_of (constraints_raw item) (map strip (constraints_raw item))
        \<and> out_constraints (out_of item) = joined_lines (map strip (constraints_raw item))"
      by (simp add: s out_constraints_lines)
    with item show ?thesis by auto
  qed
  then have "list_all2 (\<lambda>k out. \<exists>item ts. map_of items k = Some item
         \<and> list_all2 stripped_of (constraints_raw item) ts
         \<and> out_constraints out = joined_lines ts)
       (sort (map fst items)) (to_serializable items)"
    unfolding to_serializable_eq list_all2_map2 by (simp add: list_all2_same)
  with s b c e show ?thesis by blast
qed

theorem constraints_stripped_joined_witness:
  "list_all2 stripped_of (constraints_raw padded_item) [str ''A;'', str ''B;'']
   \<and> out_constraints (out_of padded_item) = str ''A;'' @ [10] @ str ''  B;''"
proof -
  have h: "list_all2 stripped_of (constraints_raw padded_item) [str ''A;'', str ''B;'']"
    by (simp add: padded_item_def users_rec_def stripped_of_def str_def is_space_def)
  from constraints_stripped_joined [of padded_item "[str ''A;'', str ''B;'']"]
  have "list_all2 stripped_of (constraints_raw padded_item) [str ''A;'', str ''B;''] \<longrightarrow>
        out_constraints (out_of padded_item) = joined_lines [str ''A;'', str ''B;'']"
    by (rule conjunct2 [THEN conjunct1])
  with h have "out_constraints (out_of padded_item) = joined_lines [str ''A;'', str ''B;'']"
    by (rule rev_mp)
  with h show ?thesis by (simp add: joined_lines_def str_def)
qed

text \<open>
  C9. \<open>parse_constraints\<close> keeps the keys of the registry and their order, and in every
  record the name, the schema name and the text of the defining statement.  It only
  appends to the constraint statements, to the primary keys and to the foreign keys,
  and only adds to the dependencies.  The program returns nothing and changes the
  registry in place; the model returns the changed registry.
\<close>

theorem parse_constraints_frame:
  "list_all2 (\<lambda>(k, t) (k', t'). k' = k
       \<and> name t' = name t \<and> schema_name t' = schema_name t \<and> schema_stmt t' = schema_stmt t
       \<and> prefix (constraints_raw t) (constraints_raw t')
       \<and> prefix (primary_keys t) (primary_keys t')
       \<and> prefix (foreign_keys t) (foreign_keys t')
       \<and> dependencies t |\<subseteq>| dependencies t')
     tables (parse_constraints sql tables)"
  using grows_foldl_alter_step [of tables "finditer alter_pattern sql"]
  by (simp add: parse_constraints_def grows_def)

text \<open>
  C10. For a text in which \<open>create_pattern\<close> matches nowhere, the empty text among
  them, \<open>extract_tables_and_ddl\<close> gives the empty registry, \<open>parse_constraints\<close> leaves
  it empty and \<open>to_serializable\<close> gives the empty list.  Every function of the model
  is total: no input makes the three stages fail.
\<close>

theorem no_create_empty_output:
  assumes "finditer create_pattern sql = []"
  shows "extract_tables_and_ddl sql = []
    \<and> parse_constraints sql (extract_tables_and_ddl sql) = []
    \<and> to_serializable (parse_constraints sql (extract_tables_and_ddl sql)) = []"
proof -
  have e: "extract_tables_and_ddl sql = []"
    by (simp add: extract_tables_and_ddl_def assms)
  have "map fst (parse_constraints sql []) = []"
    by (simp add: parse_constraints_def keys_foldl_alter_step)
  then have "parse_constraints sql [] = []" by simp
  with e show ?thesis by (simp add: to_serializable_def)
qed

theorem no_create_empty_output_witness:
  "finditer create_pattern [] = []
    \<and> extract_tables_and_ddl [] = []
    \<and> parse_constraints [] (extract_tables_and_ddl []) = []
    \<and> to_serializable (parse_constraints [] (extract_tables_and_ddl [])) = []"
proof -
  have h: "finditer create_pattern [] = []" by simp
  show ?thesis by (rule conjI [OF h no_create_empty_output [OF h]])
qed

end
